theory Spec2Isabelle
  imports Main "HOL-Library.Sublist"
begin

section \<open>Fatal conditions and their log messages\<close>

text \<open>
  Modelled from the spec: the \<^verbatim>\<open>LOG\<close> macro comes from \<^verbatim>\<open>logging.h\<close>, which is
  not among the sources.  The specification says that every failure ``emits an
  error/fatal-level trace and terminates the current configuration pass (process-fatal in
  the reference behavior)'', and the comment at the call in \<^verbatim>\<open>GetParam\<close> says ``Here
  the program terminates''.  So \<^verbatim>\<open>LOG(FATAL) << ...\<close> ends the run, while
  \<^verbatim>\<open>LOG(ERROR)\<close> writes its line and goes on.  Each fatal call site of
  \<^verbatim>\<open>params.h\<close> becomes one constructor of \<open>error\<close>, carrying exactly the values the
  call site streams into its message, and an operation that reaches the call site stops
  with that value.

  \<open>IndexOutOfRange\<close> is not a log line: it stands for \<^verbatim>\<open>ParamValues[i]\<close> with
  \<^verbatim>\<open>i >= ParamValues.size()\<close>, which is undefined behaviour of \<^verbatim>\<open>std::vector\<close>.
  The model stops there instead of inventing a value.
\<close>

datatype error =
    MalformedParameterError string
  | DuplicateParameterError string
  | ParameterNotFoundError string
  | LengthMismatchBug
  | UnknownParameterError
  | MissingRequiredParameterError string
  | ParameterConversionError string string
  | IndexOutOfRange

text \<open>The text each \<^verbatim>\<open>LOG(FATAL)\<close> call site writes.\<close>

definition quote :: string where
  "quote = [CHR 0x27]"

fun message :: "error \<Rightarrow> string" where
  "message (MalformedParameterError tok) =
     ''Wrong format of the method argument: '' @ quote @ tok @ quote @
     '' should be in the format: <Name>=<Value>''"
| "message (DuplicateParameterError Name) = ''Duplicate parameter: '' @ Name"
| "message (ParameterNotFoundError Name) = ''Parameter not found: '' @ Name"
| "message LengthMismatchBug = ''Bug: different # of parameters and values''"
| "message UnknownParameterError = ''Unknown parameters found, aborting!''"
| "message (MissingRequiredParameterError Name) =
     ''Mandatory parameter: '' @ Name @ '' is missing!''"
| "message (ParameterConversionError s tname) =
     ''Failed to convert value '' @ quote @ s @ quote @ '' from type: '' @ tname"
| "message IndexOutOfRange = []"

section \<open>AnyParams\<close>

record AnyParams =
  ParamNames :: "string list"
  ParamValues :: "string list"

text \<open>\<^verbatim>\<open>AnyParams(){}\<close>: both vectors are default-constructed.\<close>

definition AnyParams_empty :: AnyParams where
  "AnyParams_empty = \<lparr>ParamNames = [], ParamValues = []\<rparr>"

text \<open>
  \<^verbatim>\<open>AnyParams(const vector<string>& Names, const vector<string>& Values)
     : ParamNames(Names), ParamValues(Values) {}\<close>
  The body is empty: the two vectors are copied and nothing is looked at.
\<close>

definition AnyParams_pairs :: "string list \<Rightarrow> string list \<Rightarrow> AnyParams" where
  "AnyParams_pairs Names Values = \<lparr>ParamNames = Names, ParamValues = Values\<rparr>"

text \<open>
  \<^verbatim>\<open>AnyParams(const vector<string>& MethodDesc)\<close>.  \<^verbatim>\<open>SplitStr\<close> is declared
  in another header, so the constructor takes it as the parameter \<open>split_str\<close>: given the
  token and the separator it returns its \<^verbatim>\<open>bool\<close> result and the contents of
  \<^verbatim>\<open>OneParamPair\<close> (a fresh vector in every iteration).  The loop state is the local \<^verbatim>\<open>seen\<close> set and
  the two member vectors; \<^verbatim>\<open>push_back\<close> appends at the end.
\<close>

type_synonym splitter = "string \<Rightarrow> char \<Rightarrow> bool \<times> string list"

fun AnyParams_loop ::
  "splitter \<Rightarrow> string list \<Rightarrow> string set \<Rightarrow> string list \<Rightarrow> string list \<Rightarrow> error + AnyParams"
where
  "AnyParams_loop split_str [] seen names vals =
     Inr \<lparr>ParamNames = names, ParamValues = vals\<rparr>"
| "AnyParams_loop split_str (tok # rest) seen names vals =
     (case split_str tok (CHR ''='') of (ok, OneParamPair) \<Rightarrow>
        if \<not> ok \<or> length OneParamPair \<noteq> 2 then Inl (MalformedParameterError tok)
        else
          let Name = OneParamPair ! 0; sVal = OneParamPair ! 1 in
          if Name \<in> seen then Inl (DuplicateParameterError Name)
          else AnyParams_loop split_str rest (insert Name seen) (names @ [Name]) (vals @ [sVal]))"

definition AnyParams_tokens :: "splitter \<Rightarrow> string list \<Rightarrow> error + AnyParams" where
  "AnyParams_tokens split_str MethodDesc = AnyParams_loop split_str MethodDesc {} [] []"

text \<open>
  \<^verbatim>\<open>ChangeParam\<close>.  The loop runs \<open>i\<close> over the indices of \<^verbatim>\<open>ParamNames\<close>; the
  model carries \<open>i\<close> and the names from index \<open>i\<close> on.  At the first \<open>i\<close> with
  \<^verbatim>\<open>Name == ParamNames[i]\<close> it assigns \<^verbatim>\<open>ParamValues[i]\<close> and returns; when the loop
  ends without a match the fatal line is reached.  \<^verbatim>\<open>str << Value\<close> depends on the
  template argument and is the parameter \<open>to_text\<close>.  The object is changed in place, so
  the operation returns the outcome together with the object as it is afterwards.
\<close>

fun ChangeParam_loop ::
  "string \<Rightarrow> string \<Rightarrow> nat \<Rightarrow> string list \<Rightarrow> string list \<Rightarrow> error + string list"
where
  "ChangeParam_loop Name text i [] vals = Inl (ParameterNotFoundError Name)"
| "ChangeParam_loop Name text i (n # ns) vals =
     (if Name = n then
        (if i < length vals then Inr (vals[i := text]) else Inl IndexOutOfRange)
      else ChangeParam_loop Name text (Suc i) ns vals)"

definition ChangeParam ::
  "('a \<Rightarrow> string) \<Rightarrow> string \<Rightarrow> 'a \<Rightarrow> AnyParams \<Rightarrow> (error + unit) \<times> AnyParams"
where
  "ChangeParam to_text Name Value p =
     (case ChangeParam_loop Name (to_text Value) 0 (ParamNames p) (ParamValues p) of
        Inl e \<Rightarrow> (Inl e, p)
      | Inr vals \<Rightarrow> (Inr (), p\<lparr>ParamValues := vals\<rparr>))"

section \<open>AnyParamManager\<close>

record AnyParamManager =
  params :: AnyParams
  seen :: "string set"

text \<open>
  The constructor binds the reference, starts with an empty \<^verbatim>\<open>seen\<close> set and stops
  with the ``Bug'' line when the two vectors differ in size.
\<close>

definition AnyParamManager_new :: "AnyParams \<Rightarrow> error + AnyParamManager" where
  "AnyParamManager_new p =
     (if length (ParamNames p) \<noteq> length (ParamValues p) then Inl LengthMismatchBug
      else Inr \<lparr>params = p, seen = {}\<rparr>)"

text \<open>
  \<^verbatim>\<open>ConvertStrToValue\<close>, generic case.  \<^verbatim>\<open>str >> Value\<close> is the formatted
  extraction of the requested type and belongs to the type, not to this file, so it is a
  parameter.  An \<open>extraction\<close> is what the call leaves behind on a fresh stream over the
  text: whether the stream is in a failed state (then \<^verbatim>\<open>!(str >> Value)\<close> holds),
  whether the end-of-file flag is set (\<^verbatim>\<open>str.eof()\<close>), the value stored in
  \<^verbatim>\<open>Value\<close>, and the characters of the text that were not read.  \<open>tname\<close> is
  \<^verbatim>\<open>typeid(Value).name()\<close>.
\<close>

record 'a extraction =
  failed :: bool
  eof :: bool
  extracted :: 'a
  unread :: string

type_synonym 'a extractor = "string \<Rightarrow> 'a extraction"

definition ConvertStrToValue :: "'a extractor \<Rightarrow> string \<Rightarrow> string \<Rightarrow> error + 'a" where
  "ConvertStrToValue extract tname s =
     (let str = extract s in
      if failed str \<or> \<not> eof str then Inl (ParameterConversionError s tname)
      else Inr (extracted str))"

text \<open>The specialisation for \<^verbatim>\<open>string\<close>: \<^verbatim>\<open>Value = str\<close>.\<close>

definition ConvertStrToValue_string :: "string \<Rightarrow> error + string" where
  "ConvertStrToValue_string str = Inr str"

text \<open>
  A stream sets the end-of-file flag only when a read ran into the end of the text, so no
  character is left unread then.  The theorems that speak about trailing characters are
  stated for extractors with this property.
\<close>

definition stream_like :: "'a extractor \<Rightarrow> bool" where
  "stream_like extract \<longleftrightarrow> (\<forall>s. eof (extract s) \<longrightarrow> unread (extract s) = [])"

text \<open>
  \<^verbatim>\<open>GetParam\<close>.  \<open>conv\<close> is the instance of \<^verbatim>\<open>ConvertStrToValue<ParamType>\<close> the
  template argument selects.  The loop has no \<^verbatim>\<open>break\<close>: it visits every index and
  converts at each one whose name matches, and each conversion overwrites \<^verbatim>\<open>Value\<close>.
  The informational trace line has no effect on the manager or on \<^verbatim>\<open>Value\<close> and is
  not modelled.  \<^verbatim>\<open>seen.insert(Name)\<close> is reached whenever the fatal lines are not.
\<close>

fun GetParam_loop ::
  "(string \<Rightarrow> error + 'a) \<Rightarrow> string \<Rightarrow> string list \<Rightarrow> nat \<Rightarrow> string list \<Rightarrow> bool \<Rightarrow> 'a
     \<Rightarrow> error + bool \<times> 'a"
where
  "GetParam_loop conv Name vals i [] bFound Value = Inr (bFound, Value)"
| "GetParam_loop conv Name vals i (n # ns) bFound Value =
     (if Name = n then
        (if i < length vals then
           (case conv (vals ! i) of
              Inl e \<Rightarrow> Inl e
            | Inr Value' \<Rightarrow> GetParam_loop conv Name vals (Suc i) ns True Value')
         else Inl IndexOutOfRange)
      else GetParam_loop conv Name vals (Suc i) ns bFound Value)"

definition GetParam ::
  "(string \<Rightarrow> error + 'a) \<Rightarrow> string \<Rightarrow> 'a \<Rightarrow> bool \<Rightarrow> AnyParamManager
     \<Rightarrow> (error + 'a) \<times> AnyParamManager"
where
  "GetParam conv Name Value bRequired m =
     (case GetParam_loop conv Name (ParamValues (params m)) 0 (ParamNames (params m)) False Value of
        Inl e \<Rightarrow> (Inl e, m)
      | Inr (bFound, Value') \<Rightarrow>
          if \<not> bFound \<and> bRequired then (Inl (MissingRequiredParameterError Name), m)
          else (Inr Value', m\<lparr>seen := insert Name (seen m)\<rparr>))"

definition GetParamRequired ::
  "(string \<Rightarrow> error + 'a) \<Rightarrow> string \<Rightarrow> 'a \<Rightarrow> AnyParamManager \<Rightarrow> (error + 'a) \<times> AnyParamManager"
where
  "GetParamRequired conv Name Value m = GetParam conv Name Value True m"

definition GetParamOptional ::
  "(string \<Rightarrow> error + 'a) \<Rightarrow> string \<Rightarrow> 'a \<Rightarrow> AnyParamManager \<Rightarrow> (error + 'a) \<times> AnyParamManager"
where
  "GetParamOptional conv Name Value m = GetParam conv Name Value False m"

text \<open>
  \<^verbatim>\<open>ExtractParametersExcept\<close>.  The loop state is the two local vectors and the
  member \<^verbatim>\<open>seen\<close>; \<^verbatim>\<open>except.count(name) == 0\<close> is \<open>name \<notin> set ExceptList\<close>.  The
  result is built with the two-vector constructor.
\<close>

fun Extract_loop ::
  "string set \<Rightarrow> string list \<Rightarrow> nat \<Rightarrow> string list \<Rightarrow> string list \<Rightarrow> string list \<Rightarrow> string set
     \<Rightarrow> error + string list \<times> string list \<times> string set"
where
  "Extract_loop except vals i [] names values sn = Inr (names, values, sn)"
| "Extract_loop except vals i (name # rest) names values sn =
     (if name \<notin> except then
        (if i < length vals then
           Extract_loop except vals (Suc i) rest (names @ [name]) (values @ [vals ! i])
             (insert name sn)
         else Inl IndexOutOfRange)
      else Extract_loop except vals (Suc i) rest names values sn)"

definition ExtractParametersExcept ::
  "string list \<Rightarrow> AnyParamManager \<Rightarrow> (error + AnyParams) \<times> AnyParamManager"
where
  "ExtractParametersExcept ExceptList m =
     (case Extract_loop (set ExceptList) (ParamValues (params m)) 0 (ParamNames (params m))
             [] [] (seen m) of
        Inl e \<Rightarrow> (Inl e, m)
      | Inr (names, values, sn) \<Rightarrow> (Inr (AnyParams_pairs names values), m\<lparr>seen := sn\<rparr>))"

text \<open>
  The destructor.  Every name that is not in \<^verbatim>\<open>seen\<close> gets its own \<^verbatim>\<open>LOG(ERROR)\<close>
  line and sets \<^verbatim>\<open>bFail\<close>; the loop never leaves early.  After the loop
  \<^verbatim>\<open>bFail\<close> decides whether the fatal line is written.  The result is the list of
  error lines in the order written, and the fatal condition if there is one.
\<close>

fun destructor_loop :: "string set \<Rightarrow> string list \<Rightarrow> string list \<Rightarrow> bool \<Rightarrow> string list \<times> bool" where
  "destructor_loop sn [] log bFail = (log, bFail)"
| "destructor_loop sn (Name # rest) log bFail =
     (if Name \<notin> sn then destructor_loop sn rest (log @ [''Unknown parameter: '' @ Name]) True
      else destructor_loop sn rest log bFail)"

definition AnyParamManager_destructor :: "AnyParamManager \<Rightarrow> string list \<times> error option" where
  "AnyParamManager_destructor m =
     (case destructor_loop (seen m) (ParamNames (params m)) [] False of
        (log, bFail) \<Rightarrow> (log, if bFail then Some UnknownParameterError else None))"

section \<open>The separator split\<close>

text \<open>
  Modelled from the spec: \<^verbatim>\<open>SplitStr\<close> is called by the token constructor but defined
  in a header that is not among the sources.  The specification says of a token
  ``split on \<^verbatim>\<open>=\<close>; if the split does not yield exactly two parts, fail'' and that a
  token holds ``exactly one \<^verbatim>\<open>=\<close> separating a name from a value'' with no escaping.
  \<open>split_on\<close> cuts the text at every separator and keeps every part, so a text with
  \<open>k\<close> separators has \<open>k + 1\<close> parts; the split itself never reports a failure.
\<close>

fun split_on :: "char \<Rightarrow> string \<Rightarrow> string list" where
  "split_on c [] = [[]]"
| "split_on c (x # xs) =
     (if x = c then [] # split_on c xs
      else (case split_on c xs of
              [] \<Rightarrow> [[x]]
            | p # ps \<Rightarrow> (x # p) # ps))"

text \<open>
  Modelled from the spec: \<^verbatim>\<open>SplitStr\<close> itself, with the result flag and the parts it
  leaves in the output vector.
\<close>

definition SplitStr :: splitter where
  "SplitStr s c = (True, split_on c s)"

section \<open>Notions used in the statements\<close>

text \<open>The invariant of the data model: one value for every name.\<close>

definition well_formed :: "AnyParams \<Rightarrow> bool" where
  "well_formed p \<longleftrightarrow> length (ParamNames p) = length (ParamValues p)"

text \<open>The entries of a set, as pairs of name and value in their order.\<close>

definition entries :: "AnyParams \<Rightarrow> (string \<times> string) list" where
  "entries p = zip (ParamNames p) (ParamValues p)"

text \<open>The values of the entries with a given name, in their order.\<close>

definition matching :: "string \<Rightarrow> AnyParams \<Rightarrow> string list" where
  "matching Name p = map snd (filter (\<lambda>e. fst e = Name) (entries p))"

text \<open>The position of the first entry with a given name (the number of names if there is none).\<close>

definition first_index :: "string \<Rightarrow> string list \<Rightarrow> nat" where
  "first_index Name ns = length (takeWhile (\<lambda>n. n \<noteq> Name) ns)"

text \<open>The entries an extraction keeps: those whose name is not excluded.\<close>

definition kept :: "string list \<Rightarrow> AnyParams \<Rightarrow> (string \<times> string) list" where
  "kept ExceptList p = filter (\<lambda>e. fst e \<notin> set ExceptList) (entries p)"

text \<open>The names of a manager's set that are not in its \<^verbatim>\<open>seen\<close> set, in their order.\<close>

definition unconsumed :: "AnyParamManager \<Rightarrow> string list" where
  "unconsumed m = filter (\<lambda>Name. Name \<notin> seen m) (ParamNames (params m))"

text \<open>
  What the token constructor reads off a split: a token is malformed when the split reports
  failure or does not give two parts; otherwise the parts are its name and its value.
\<close>

definition malformed :: "splitter \<Rightarrow> string \<Rightarrow> bool" where
  "malformed split_str tok \<longleftrightarrow>
     \<not> fst (split_str tok (CHR ''='')) \<or> length (snd (split_str tok (CHR ''=''))) \<noteq> 2"

definition name_of :: "splitter \<Rightarrow> string \<Rightarrow> string" where
  "name_of split_str tok = snd (split_str tok (CHR ''='')) ! 0"

definition value_of :: "splitter \<Rightarrow> string \<Rightarrow> string" where
  "value_of split_str tok = snd (split_str tok (CHR ''='')) ! 1"

text \<open>Converting a list of texts one after the other, as the lookup loop does at its matches.\<close>

fun convert_all :: "(string \<Rightarrow> error + 'a) \<Rightarrow> string list \<Rightarrow> bool \<Rightarrow> 'a \<Rightarrow> error + bool \<times> 'a" where
  "convert_all conv [] bFound Value = Inr (bFound, Value)"
| "convert_all conv (s # ss) bFound Value =
     (case conv s of Inl e \<Rightarrow> Inl e | Inr Value' \<Rightarrow> convert_all conv ss True Value')"

text \<open>
  An example extractor to run the conversion on concrete texts: it reads the leading run of
  decimal digits as a natural number, fails when there is none, and has the end-of-file
  flag set exactly when it ran into the end of the text.
\<close>

definition is_digit :: "char \<Rightarrow> bool" where
  "is_digit c \<longleftrightarrow> c \<in> set ''0123456789''"

definition decimal :: "string \<Rightarrow> nat" where
  "decimal ds = foldl (\<lambda>a c. 10 * a + (of_char c - 48)) 0 ds"

definition digits_extractor :: "nat extractor" where
  "digits_extractor s =
     (let ds = takeWhile is_digit s; rest = dropWhile is_digit s in
      \<lparr>failed = (ds = []), eof = (rest = []), extracted = decimal ds, unread = rest\<rparr>)"

section \<open>End-of-pass validation\<close>

lemma destructor_loop_eq:
  "destructor_loop sn ns log b =
     (log @ map (\<lambda>n. ''Unknown parameter: '' @ n) (filter (\<lambda>n. n \<notin> sn) ns),
      b \<or> filter (\<lambda>n. n \<notin> sn) ns \<noteq> [])"
  by (induction ns arbitrary: log b) auto

lemma destructor_unconsumed:
  "AnyParamManager_destructor m =
     (map (\<lambda>Name. ''Unknown parameter: '' @ Name) (unconsumed m),
      if unconsumed m = [] then None else Some UnknownParameterError)"
  by (simp add: AnyParamManager_destructor_def destructor_loop_eq unconsumed_def)

text \<open>
  C3.  When a manager is destroyed, every name of its set that is not in the seen set is
  reported, each with its own error line and in the order of the set, with no name left out;
  the run fails fatally exactly when there is such a name; and a manager whose seen set
  covers every name of the set writes nothing and does not fail.
\<close>

theorem destructor_reports_all_unconsumed:
  "AnyParamManager_destructor m =
     (map (\<lambda>Name. ''Unknown parameter: '' @ Name) (unconsumed m),
      if unconsumed m = [] then None else Some UnknownParameterError)
   \<and> (snd (AnyParamManager_destructor m) = Some UnknownParameterError
        \<longleftrightarrow> (\<exists>Name \<in> set (ParamNames (params m)). Name \<notin> seen m))
   \<and> (set (ParamNames (params m)) \<subseteq> seen m \<longrightarrow> AnyParamManager_destructor m = ([], None))"
proof -
  have un: "unconsumed m = [] \<longleftrightarrow> set (ParamNames (params m)) \<subseteq> seen m"
    by (auto simp: unconsumed_def filter_empty_conv)
  show ?thesis
    using un by (auto simp: destructor_unconsumed)
qed

theorem destructor_reports_all_unconsumed_witness:
  "AnyParamManager_destructor
     \<lparr>params = AnyParams_pairs [''a'', ''b'', ''c''] [''1'', ''2'', ''3''], seen = {''b''}\<rparr>
   = ([''Unknown parameter: a'', ''Unknown parameter: c''], Some UnknownParameterError)
   \<and> AnyParamManager_destructor
     \<lparr>params = AnyParams_pairs [''a'', ''b''] [''1'', ''2''], seen = {''a'', ''b'', ''z''}\<rparr>
   = ([], None)"
  using destructor_reports_all_unconsumed
          [of "\<lparr>params = AnyParams_pairs [''a'', ''b'', ''c''] [''1'', ''2'', ''3''], seen = {''b''}\<rparr>"]
        destructor_reports_all_unconsumed
          [of "\<lparr>params = AnyParams_pairs [''a'', ''b''] [''1'', ''2''], seen = {''a'', ''b'', ''z''}\<rparr>"]
  by (simp add: unconsumed_def AnyParams_pairs_def)

section \<open>The unchecked constructor\<close>

lemma ChangeParam_loop_no_bug: "ChangeParam_loop Name t i ns vs \<noteq> Inl LengthMismatchBug"
  by (induction ns arbitrary: i) auto

text \<open>
  C10.  The constructor from a sequence of names and a sequence of values checks nothing: for
  any two sequences, whatever their lengths and with or without repeated names, it gives the
  set that holds them as they are.  The lengths are compared when a manager is constructed
  over the set, which stops with the length-mismatch failure exactly when they differ;
  replacing a value never reports that failure.
\<close>

theorem pairs_constructor_unchecked:
  "AnyParams_pairs Names Values = \<lparr>ParamNames = Names, ParamValues = Values\<rparr>
   \<and> AnyParamManager_new (AnyParams_pairs Names Values) =
       (if length Names = length Values
        then Inr \<lparr>params = AnyParams_pairs Names Values, seen = {}\<rparr>
        else Inl LengthMismatchBug)
   \<and> fst (ChangeParam to_text Name Value (AnyParams_pairs Names Values)) \<noteq> Inl LengthMismatchBug"
  using ChangeParam_loop_no_bug [of Name "to_text Value" 0 Names Values]
  by (auto simp: AnyParams_pairs_def AnyParamManager_new_def ChangeParam_def split: sum.splits)

theorem pairs_constructor_unchecked_witness:
  "AnyParams_pairs [''a'', ''a''] [''1''] = \<lparr>ParamNames = [''a'', ''a''], ParamValues = [''1'']\<rparr>
   \<and> AnyParamManager_new (AnyParams_pairs [''a'', ''a''] [''1'']) = Inl LengthMismatchBug
   \<and> fst (ChangeParam id ''a'' ''2'' (AnyParams_pairs [''a'', ''a''] [''1''])) \<noteq> Inl LengthMismatchBug"
  using pairs_constructor_unchecked [of "[''a'', ''a'']" "[''1'']" id "''a''" "''2''"]
  by (simp add: AnyParams_pairs_def)

section \<open>Typed lookup\<close>

lemma GetParam_loop_absent:
  "Name \<notin> set ns \<Longrightarrow> GetParam_loop conv Name vals i ns b V = Inr (b, V)"
  by (induction ns arbitrary: i) auto

lemma GetParam_loop_found:
  "GetParam_loop conv Name vals i ns b V = Inr (bf, x) \<Longrightarrow> bf = (b \<or> Name \<in> set ns)"
  by (induction ns arbitrary: i b V) (auto split: if_splits sum.splits)

lemma GetParam_loop_zip:
  "length vals = i + length ns \<Longrightarrow>
   GetParam_loop conv Name vals i ns b V =
     convert_all conv (map snd (filter (\<lambda>e. fst e = Name) (zip ns (drop i vals)))) b V"
proof (induction ns arbitrary: i b V)
  case Nil
  then show ?case by simp
next
  case (Cons n ns)
  from Cons.prems have lt: "i < length vals" and len: "length vals = Suc i + length ns"
    by simp_all
  have dr: "drop i vals = vals ! i # drop (Suc i) vals"
    using lt by (simp add: Cons_nth_drop_Suc)
  show ?case
    using lt Cons.IH [OF len] by (auto simp: dr split: sum.splits)
qed

lemma convert_all_last:
  "\<forall>t \<in> set ss. \<exists>y. conv t = Inr y \<Longrightarrow>
   convert_all conv (ss @ [s]) b V =
     (case conv s of Inl e \<Rightarrow> Inl e | Inr x \<Rightarrow> Inr (True, x))"
  by (induction ss arbitrary: b V) (auto split: sum.splits)

lemma unconsumed_insert_absent:
  "Name \<notin> set (ParamNames (params m)) \<Longrightarrow>
   unconsumed (m\<lparr>seen := insert Name (seen m)\<rparr>) = unconsumed m"
  by (auto simp: unconsumed_def intro: filter_cong)

text \<open>
  C9.  An optional lookup of a name that has no entry in the managed set still puts the name
  into the seen set, and returns the caller's value.  The seen set then holds a name that is
  not a name of the set.  The validation at the end is not affected: it gives the same
  report and outcome as before the call, since it only walks over the names of the set.
\<close>

theorem optional_absent_marks_seen:
  assumes "Name \<notin> set (ParamNames (params m))"
  shows "GetParamOptional conv Name Value m = (Inr Value, m\<lparr>seen := insert Name (seen m)\<rparr>)
    \<and> Name \<in> seen (snd (GetParamOptional conv Name Value m))
    \<and> Name \<notin> set (ParamNames (params (snd (GetParamOptional conv Name Value m))))
    \<and> AnyParamManager_destructor (snd (GetParamOptional conv Name Value m)) =
        AnyParamManager_destructor m"
proof -
  have res: "GetParamOptional conv Name Value m = (Inr Value, m\<lparr>seen := insert Name (seen m)\<rparr>)"
    using assms by (simp add: GetParamOptional_def GetParam_def GetParam_loop_absent)
  have "AnyParamManager_destructor (m\<lparr>seen := insert Name (seen m)\<rparr>) =
        AnyParamManager_destructor m"
    using assms by (simp add: destructor_unconsumed unconsumed_insert_absent)
  with res assms show ?thesis by simp
qed

theorem optional_absent_marks_seen_witness:
  "''k'' \<notin> set (ParamNames (params \<lparr>params = AnyParams_pairs [''a''] [''1''], seen = {}\<rparr>))
   \<and> GetParamOptional ConvertStrToValue_string ''k'' ''dflt''
        \<lparr>params = AnyParams_pairs [''a''] [''1''], seen = {}\<rparr>
      = (Inr ''dflt'', \<lparr>params = AnyParams_pairs [''a''] [''1''], seen = {''k''}\<rparr>)
   \<and> AnyParamManager_destructor \<lparr>params = AnyParams_pairs [''a''] [''1''], seen = {''k''}\<rparr>
      = AnyParamManager_destructor \<lparr>params = AnyParams_pairs [''a''] [''1''], seen = {}\<rparr>"
proof -
  have h: "''k'' \<notin> set (ParamNames (params \<lparr>params = AnyParams_pairs [''a''] [''1''], seen = {}\<rparr>))"
    by (simp add: AnyParams_pairs_def)
  show ?thesis
    using h optional_absent_marks_seen [OF h, of ConvertStrToValue_string "''dflt''"]
    by (simp add: AnyParams_pairs_def AnyParamManager_destructor_def)
qed

text \<open>
  C7.  An optional lookup of a name that has no entry does not fail and returns the caller's
  value as it was (the name is put into the seen set); for a name that has an entry, the
  optional lookup is the required lookup: same result, same failure, same seen set.
\<close>

theorem optional_default_or_required:
  "(Name \<notin> set (ParamNames (params m)) \<longrightarrow>
      GetParamOptional conv Name Value m = (Inr Value, m\<lparr>seen := insert Name (seen m)\<rparr>))
   \<and> (Name \<in> set (ParamNames (params m)) \<longrightarrow>
      GetParamOptional conv Name Value m = GetParamRequired conv Name Value m)"
proof (intro conjI impI)
  assume "Name \<notin> set (ParamNames (params m))"
  then show "GetParamOptional conv Name Value m = (Inr Value, m\<lparr>seen := insert Name (seen m)\<rparr>)"
    by (simp add: GetParamOptional_def GetParam_def GetParam_loop_absent)
next
  assume mem: "Name \<in> set (ParamNames (params m))"
  show "GetParamOptional conv Name Value m = GetParamRequired conv Name Value m"
  proof (cases "GetParam_loop conv Name (ParamValues (params m)) 0 (ParamNames (params m)) False Value")
    case (Inl e)
    then show ?thesis by (simp add: GetParamOptional_def GetParamRequired_def GetParam_def)
  next
    case (Inr r)
    obtain bf x where r: "r = (bf, x)" by (cases r)
    with Inr mem have "bf" using GetParam_loop_found by fastforce
    with Inr r show ?thesis by (simp add: GetParamOptional_def GetParamRequired_def GetParam_def)
  qed
qed

theorem optional_default_or_required_witness:
  "GetParamOptional (ConvertStrToValue digits_extractor ''j'') ''k'' 7
        \<lparr>params = AnyParams_pairs [''a''] [''42''], seen = {}\<rparr>
      = (Inr 7, \<lparr>params = AnyParams_pairs [''a''] [''42''], seen = {''k''}\<rparr>)
   \<and> GetParamOptional (ConvertStrToValue digits_extractor ''j'') ''a'' 7
        \<lparr>params = AnyParams_pairs [''a''] [''42''], seen = {}\<rparr>
      = GetParamRequired (ConvertStrToValue digits_extractor ''j'') ''a'' 7
        \<lparr>params = AnyParams_pairs [''a''] [''42''], seen = {}\<rparr>
   \<and> GetParamRequired (ConvertStrToValue digits_extractor ''j'') ''a'' 7
        \<lparr>params = AnyParams_pairs [''a''] [''42''], seen = {}\<rparr>
      = (Inr 42, \<lparr>params = AnyParams_pairs [''a''] [''42''], seen = {''a''}\<rparr>)"
  using optional_default_or_required [of "''k''" "\<lparr>params = AnyParams_pairs [''a''] [''42''], seen = {}\<rparr>"
          "ConvertStrToValue digits_extractor ''j''" 7]
    optional_default_or_required [of "''a''" "\<lparr>params = AnyParams_pairs [''a''] [''42''], seen = {}\<rparr>"
          "ConvertStrToValue digits_extractor ''j''" 7]
  by (simp add: AnyParams_pairs_def GetParamRequired_def GetParam_def ConvertStrToValue_def
       digits_extractor_def is_digit_def decimal_def)

lemma convert_all_fails:
  "\<forall>t \<in> set ss. \<exists>y. conv t = Inr y \<Longrightarrow> conv s = Inl e \<Longrightarrow>
   convert_all conv (ss @ s # later) b V = Inl e"
  by (induction ss arbitrary: b V) (auto split: sum.splits)

lemma GetParam_loop_matching:
  "well_formed p \<Longrightarrow>
   GetParam_loop conv Name (ParamValues p) 0 (ParamNames p) b V =
     convert_all conv (matching Name p) b V"
  using GetParam_loop_zip [of "ParamValues p" 0 "ParamNames p" conv Name b V]
  by (simp add: well_formed_def matching_def entries_def)

lemma matching_distinct:
  "distinct ns \<Longrightarrow> i < length ns \<Longrightarrow> length vs = length ns \<Longrightarrow>
   map snd (filter (\<lambda>e. fst e = ns ! i) (zip ns vs)) = [vs ! i]"
proof (induction ns arbitrary: i vs)
  case Nil
  then show ?case by simp
next
  case (Cons n ns)
  then obtain v vs' where vs: "vs = v # vs'" by (cases vs) auto
  show ?case
  proof (cases i)
    case 0
    have "filter (\<lambda>e. fst e = n) (zip ns vs') = []"
      using Cons.prems(1) by (auto simp: filter_empty_conv dest: set_zip_leftD)
    with 0 vs show ?thesis by simp
  next
    case (Suc j)
    with Cons.prems vs have "ns ! j \<noteq> n" by auto
    with Suc vs Cons.prems Cons.IH [of j vs'] show ?thesis by (auto)
  qed
qed

text \<open>
  C1 (as the code has it).  In a manager over a well-formed set, a required lookup of a name
  that has no entry fails with the missing-parameter failure for that name and leaves the
  manager as it was.  Otherwise the value of every entry with that name is converted, in the
  order of the set; if all of them convert, the lookup returns the conversion of the last
  one and puts the name into the seen set, and if one does not convert, the lookup fails with
  that conversion failure.  When the names of the set are distinct, the entry with the name
  is the only one and its conversion is the result.
\<close>

theorem required_lookup_last_match:
  assumes "well_formed (params m)"
  shows "(Name \<notin> set (ParamNames (params m)) \<longrightarrow>
            GetParamRequired conv Name Value m = (Inl (MissingRequiredParameterError Name), m))
   \<and> (matching Name (params m) = earlier @ [s] \<and> (\<forall>t \<in> set earlier. \<exists>y. conv t = Inr y) \<longrightarrow>
        GetParamRequired conv Name Value m =
          (case conv s of
             Inl e \<Rightarrow> (Inl e, m)
           | Inr x \<Rightarrow> (Inr x, m\<lparr>seen := insert Name (seen m)\<rparr>)))
   \<and> (distinct (ParamNames (params m)) \<and> i < length (ParamNames (params m))
        \<and> ParamNames (params m) ! i = Name \<longrightarrow>
        GetParamRequired conv Name Value m =
          (case conv (ParamValues (params m) ! i) of
             Inl e \<Rightarrow> (Inl e, m)
           | Inr x \<Rightarrow> (Inr x, m\<lparr>seen := insert Name (seen m)\<rparr>)))
   \<and> (matching Name (params m) = before @ t # later
        \<and> (\<forall>u \<in> set before. \<exists>y. conv u = Inr y) \<and> conv t = Inl err \<longrightarrow>
        GetParamRequired conv Name Value m = (Inl err, m))"
proof (intro conjI impI)
  assume "matching Name (params m) = before @ t # later
        \<and> (\<forall>u \<in> set before. \<exists>y. conv u = Inr y) \<and> conv t = Inl err"
  then have "GetParam_loop conv Name (ParamValues (params m)) 0 (ParamNames (params m)) False Value =
      Inl err"
    using assms by (simp add: GetParam_loop_matching convert_all_fails)
  then show "GetParamRequired conv Name Value m = (Inl err, m)"
    by (simp add: GetParamRequired_def GetParam_def)
next
  assume "Name \<notin> set (ParamNames (params m))"
  then show "GetParamRequired conv Name Value m = (Inl (MissingRequiredParameterError Name), m)"
    by (simp add: GetParamRequired_def GetParam_def GetParam_loop_absent)
next
  assume a: "matching Name (params m) = earlier @ [s] \<and> (\<forall>t \<in> set earlier. \<exists>y. conv t = Inr y)"
  then have "GetParam_loop conv Name (ParamValues (params m)) 0 (ParamNames (params m)) False Value =
      (case conv s of Inl e \<Rightarrow> Inl e | Inr x \<Rightarrow> Inr (True, x))"
    using assms by (simp add: GetParam_loop_matching convert_all_last)
  then show "GetParamRequired conv Name Value m =
          (case conv s of
             Inl e \<Rightarrow> (Inl e, m)
           | Inr x \<Rightarrow> (Inr x, m\<lparr>seen := insert Name (seen m)\<rparr>))"
    by (simp add: GetParamRequired_def GetParam_def split: sum.splits)
next
  assume a: "distinct (ParamNames (params m)) \<and> i < length (ParamNames (params m))
        \<and> ParamNames (params m) ! i = Name"
  then have d: "distinct (ParamNames (params m))" and i: "i < length (ParamNames (params m))"
    and nm: "ParamNames (params m) ! i = Name"
    by simp_all
  have len: "length (ParamValues (params m)) = length (ParamNames (params m))"
    using assms by (simp add: well_formed_def)
  have "map snd (filter (\<lambda>e. fst e = ParamNames (params m) ! i)
          (zip (ParamNames (params m)) (ParamValues (params m)))) = [ParamValues (params m) ! i]"
    using d i len by (rule matching_distinct)
  then have "matching Name (params m) = [ParamValues (params m) ! i]"
    unfolding matching_def entries_def nm .
  then have "GetParam_loop conv Name (ParamValues (params m)) 0 (ParamNames (params m)) False Value =
      (case conv (ParamValues (params m) ! i) of Inl e \<Rightarrow> Inl e | Inr x \<Rightarrow> Inr (True, x))"
    using assms by (simp add: GetParam_loop_matching split: sum.splits)
  then show "GetParamRequired conv Name Value m =
          (case conv (ParamValues (params m) ! i) of
             Inl e \<Rightarrow> (Inl e, m)
           | Inr x \<Rightarrow> (Inr x, m\<lparr>seen := insert Name (seen m)\<rparr>))"
    by (simp add: GetParamRequired_def GetParam_def split: sum.splits)
qed

theorem required_lookup_last_match_witness:
  "well_formed (params \<lparr>params = AnyParams_pairs [''a'', ''b'', ''a''] [''1'', ''2'', ''3''], seen = {}\<rparr>)
   \<and> GetParamRequired (ConvertStrToValue digits_extractor ''j'') ''zz'' 0
        \<lparr>params = AnyParams_pairs [''a'', ''b'', ''a''] [''1'', ''2'', ''3''], seen = {}\<rparr>
      = (Inl (MissingRequiredParameterError ''zz''),
         \<lparr>params = AnyParams_pairs [''a'', ''b'', ''a''] [''1'', ''2'', ''3''], seen = {}\<rparr>)
   \<and> GetParamRequired (ConvertStrToValue digits_extractor ''j'') ''a'' 0
        \<lparr>params = AnyParams_pairs [''a'', ''b'', ''a''] [''1'', ''2'', ''3''], seen = {}\<rparr>
      = (Inr 3, \<lparr>params = AnyParams_pairs [''a'', ''b'', ''a''] [''1'', ''2'', ''3''], seen = {''a''}\<rparr>)"
proof -
  let ?m = "\<lparr>params = AnyParams_pairs [''a'', ''b'', ''a''] [''1'', ''2'', ''3''], seen = {}\<rparr>"
  let ?conv = "ConvertStrToValue digits_extractor ''j''"
  have wf: "well_formed (params ?m)"
    by (simp add: well_formed_def AnyParams_pairs_def)
  have absent: "''zz'' \<notin> set (ParamNames (params ?m))"
    by (simp add: AnyParams_pairs_def)
  have ms: "matching ''a'' (params ?m) = [''1''] @ [''3''] \<and> (\<forall>t \<in> set [''1'']. \<exists>y. ?conv t = Inr y)"
    by (simp add: matching_def entries_def AnyParams_pairs_def ConvertStrToValue_def
          digits_extractor_def is_digit_def)
  have c3: "?conv ''3'' = Inr 3"
    by (simp add: ConvertStrToValue_def digits_extractor_def is_digit_def decimal_def)
  from required_lookup_last_match [OF wf, of "''zz''" ?conv 0 "[''1'']" "''3''" 0] absent
  have r1: "GetParamRequired ?conv ''zz'' 0 ?m = (Inl (MissingRequiredParameterError ''zz''), ?m)"
    by blast
  from required_lookup_last_match [OF wf, of "''a''" ?conv 0 "[''1'']" "''3''" 0] ms
  have r2: "GetParamRequired ?conv ''a'' 0 ?m = (Inr 3, ?m\<lparr>seen := insert ''a'' (seen ?m)\<rparr>)"
    by (simp add: c3)
  show ?thesis using wf r1 r2 by simp
qed

text \<open>
  The claim C1 as it is written takes the first match when a name is repeated.  A set built
  with the two-vector constructor may repeat a name, a manager over it is constructed without
  complaint, and the lookup then returns the value of the second entry, not of the first.
\<close>

theorem required_lookup_first_match_counterexample:
  "GetParamRequired ConvertStrToValue_string ''a'' []
      \<lparr>params = AnyParams_pairs [''a'', ''a''] [''first'', ''second''], seen = {}\<rparr>
    = (Inr ''second'', \<lparr>params = AnyParams_pairs [''a'', ''a''] [''first'', ''second''], seen = {''a''}\<rparr>)
   \<and> ParamNames (AnyParams_pairs [''a'', ''a''] [''first'', ''second'']) ! 0 = ''a''
   \<and> ParamValues (AnyParams_pairs [''a'', ''a''] [''first'', ''second'']) ! 0 = ''first''
   \<and> AnyParamManager_new (AnyParams_pairs [''a'', ''a''] [''first'', ''second''])
       = Inr \<lparr>params = AnyParams_pairs [''a'', ''a''] [''first'', ''second''], seen = {}\<rparr>"
  by (simp add: GetParamRequired_def GetParam_def ConvertStrToValue_string_def AnyParams_pairs_def
        AnyParamManager_new_def)

section \<open>Conversion\<close>

lemma stream_like_digits: "stream_like digits_extractor"
  by (simp add: stream_like_def digits_extractor_def Let_def)

lemma message_names_text: "sublist s (message (ParameterConversionError s tname))"
proof -
  have "message (ParameterConversionError s tname) =
      (''Failed to convert value '' @ quote) @ s @ (quote @ '' from type: '' @ tname)"
    by simp
  then show ?thesis unfolding sublist_def by blast
qed

lemma message_names_type: "sublist tname (message (ParameterConversionError s tname))"
proof -
  have "message (ParameterConversionError s tname) =
      (''Failed to convert value '' @ quote @ s @ quote @ '' from type: '') @ tname @ []"
    by simp
  then show ?thesis unfolding sublist_def by blast
qed

text \<open>
  C2 (as the code has it).  For every text and every target type other than string, with an
  extraction that behaves like a stream, conversion fails with the conversion failure
  whenever the extraction fails or characters of the text are left unread; whenever the
  extraction does not fail and ran into the end of the text, conversion succeeds with the
  extracted value; when it succeeds the whole text was read and the result is the extracted
  value; the only failure it has is the conversion failure, whose message holds the
  offending text and the name of the target type.  For the string type conversion gives the
  text back and never fails.
\<close>

theorem conversion_rule:
  assumes "stream_like extract"
  shows "(failed (extract s) \<or> unread (extract s) \<noteq> [] \<longrightarrow>
            ConvertStrToValue extract tname s = Inl (ParameterConversionError s tname))
   \<and> (\<not> failed (extract s) \<and> eof (extract s) \<longrightarrow>
            ConvertStrToValue extract tname s = Inr (extracted (extract s)))
   \<and> (\<forall>v. ConvertStrToValue extract tname s = Inr v \<longrightarrow>
            \<not> failed (extract s) \<and> unread (extract s) = [] \<and> v = extracted (extract s))
   \<and> (\<forall>e. ConvertStrToValue extract tname s = Inl e \<longrightarrow> e = ParameterConversionError s tname)
   \<and> sublist s (message (ParameterConversionError s tname))
   \<and> sublist tname (message (ParameterConversionError s tname))
   \<and> ConvertStrToValue_string s = Inr s"
proof -
  have law: "eof (extract s) \<longrightarrow> unread (extract s) = []"
    using assms by (simp add: stream_like_def)
  have a: "failed (extract s) \<or> unread (extract s) \<noteq> [] \<longrightarrow>
            ConvertStrToValue extract tname s = Inl (ParameterConversionError s tname)"
    using law by (auto simp: ConvertStrToValue_def Let_def)
  have b: "\<forall>v. ConvertStrToValue extract tname s = Inr v \<longrightarrow>
            \<not> failed (extract s) \<and> unread (extract s) = [] \<and> v = extracted (extract s)"
    using law by (auto simp: ConvertStrToValue_def Let_def split: if_splits)
  have c: "\<forall>e. ConvertStrToValue extract tname s = Inl e \<longrightarrow> e = ParameterConversionError s tname"
    by (auto simp: ConvertStrToValue_def Let_def split: if_splits)
  have d: "ConvertStrToValue_string s = Inr s"
    by (simp add: ConvertStrToValue_string_def)
  have ok: "\<not> failed (extract s) \<and> eof (extract s) \<longrightarrow>
            ConvertStrToValue extract tname s = Inr (extracted (extract s))"
    by (simp add: ConvertStrToValue_def Let_def)
  from a ok b c message_names_text message_names_type d show ?thesis
    by (intro conjI)
qed

theorem conversion_rule_witness:
  "stream_like digits_extractor
   \<and> unread (digits_extractor ''42x'') \<noteq> []
   \<and> ConvertStrToValue digits_extractor ''j'' ''42x'' = Inl (ParameterConversionError ''42x'' ''j'')
   \<and> \<not> failed (digits_extractor ''42'') \<and> eof (digits_extractor ''42'')
   \<and> ConvertStrToValue digits_extractor ''j'' ''42'' = Inr 42
   \<and> ConvertStrToValue_string ''3.14'' = Inr ''3.14''"
proof -
  have tr: "unread (digits_extractor ''42x'') \<noteq> []"
    by (simp add: digits_extractor_def is_digit_def)
  have nf: "\<not> failed (digits_extractor ''42'')" and ef: "eof (digits_extractor ''42'')"
    by (simp_all add: digits_extractor_def is_digit_def)
  have val: "extracted (digits_extractor ''42'') = 42"
    by (simp add: digits_extractor_def is_digit_def decimal_def)
  from conversion_rule [OF stream_like_digits, of "''42x''" "''j''"] tr
  have bad: "ConvertStrToValue digits_extractor ''j'' ''42x'' = Inl (ParameterConversionError ''42x'' ''j'')"
    by blast
  from conversion_rule [OF stream_like_digits, of "''42''" "''j''"] nf ef
  have "ConvertStrToValue digits_extractor ''j'' ''42'' = Inr (extracted (digits_extractor ''42''))"
    by blast
  then have good: "ConvertStrToValue digits_extractor ''j'' ''42'' = Inr 42"
    by (simp only: val)
  have str: "ConvertStrToValue_string ''3.14'' = Inr ''3.14''"
    using conversion_rule [OF stream_like_digits, of "''3.14''" "''j''"] by blast
  from stream_like_digits tr bad nf ef good str show ?thesis
    by (intro conjI)
qed

text \<open>
  The claim C2 as it is written has the failure name the parameter as well.  The conversion
  is not given the name: the lookups of two different parameters holding the same bad text
  fail with the same value, and the message written contains neither name.
\<close>

theorem conversion_error_names_parameter_counterexample:
  "GetParamRequired (ConvertStrToValue digits_extractor ''j'') ''alpha'' 0
      \<lparr>params = AnyParams_pairs [''alpha'', ''beta''] [''12x'', ''12x''], seen = {}\<rparr>
     = (Inl (ParameterConversionError ''12x'' ''j''),
        \<lparr>params = AnyParams_pairs [''alpha'', ''beta''] [''12x'', ''12x''], seen = {}\<rparr>)
   \<and> GetParamRequired (ConvertStrToValue digits_extractor ''j'') ''beta'' 0
      \<lparr>params = AnyParams_pairs [''alpha'', ''beta''] [''12x'', ''12x''], seen = {}\<rparr>
     = (Inl (ParameterConversionError ''12x'' ''j''),
        \<lparr>params = AnyParams_pairs [''alpha'', ''beta''] [''12x'', ''12x''], seen = {}\<rparr>)
   \<and> message (ParameterConversionError ''12x'' ''j'') =
        ''Failed to convert value '' @ quote @ ''12x'' @ quote @ '' from type: j''
   \<and> \<not> sublist ''alpha'' (message (ParameterConversionError ''12x'' ''j''))
   \<and> \<not> sublist ''beta'' (message (ParameterConversionError ''12x'' ''j''))"
proof -
  have conv: "ConvertStrToValue digits_extractor ''j'' ''12x'' = Inl (ParameterConversionError ''12x'' ''j'')"
    by (simp add: ConvertStrToValue_def digits_extractor_def is_digit_def)
  have a: "GetParamRequired (ConvertStrToValue digits_extractor ''j'') ''alpha'' 0
      \<lparr>params = AnyParams_pairs [''alpha'', ''beta''] [''12x'', ''12x''], seen = {}\<rparr>
     = (Inl (ParameterConversionError ''12x'' ''j''),
        \<lparr>params = AnyParams_pairs [''alpha'', ''beta''] [''12x'', ''12x''], seen = {}\<rparr>)"
    by (simp add: GetParamRequired_def GetParam_def AnyParams_pairs_def conv)
  have b: "GetParamRequired (ConvertStrToValue digits_extractor ''j'') ''beta'' 0
      \<lparr>params = AnyParams_pairs [''alpha'', ''beta''] [''12x'', ''12x''], seen = {}\<rparr>
     = (Inl (ParameterConversionError ''12x'' ''j''),
        \<lparr>params = AnyParams_pairs [''alpha'', ''beta''] [''12x'', ''12x''], seen = {}\<rparr>)"
    by (simp add: GetParamRequired_def GetParam_def AnyParams_pairs_def conv)
  have c: "message (ParameterConversionError ''12x'' ''j'') =
        ''Failed to convert value '' @ quote @ ''12x'' @ quote @ '' from type: j''"
    by simp
  have d: "\<not> sublist ''alpha'' (message (ParameterConversionError ''12x'' ''j''))"
    by code_simp
  have e: "\<not> sublist ''beta'' (message (ParameterConversionError ''12x'' ''j''))"
    by code_simp
  from a b c d e show ?thesis by (intro conjI)
qed

section \<open>Extraction\<close>

lemma Extract_loop_zip:
  "length vals = i + length ns \<Longrightarrow>
   Extract_loop ex vals i ns nms vls sn =
     Inr (nms @ map fst (filter (\<lambda>e. fst e \<notin> ex) (zip ns (drop i vals))),
          vls @ map snd (filter (\<lambda>e. fst e \<notin> ex) (zip ns (drop i vals))),
          sn \<union> set (map fst (filter (\<lambda>e. fst e \<notin> ex) (zip ns (drop i vals)))))"
proof (induction ns arbitrary: i nms vls sn)
  case Nil
  then show ?case by simp
next
  case (Cons n ns)
  from Cons.prems have lt: "i < length vals" and len: "length vals = Suc i + length ns"
    by simp_all
  have dr: "drop i vals = vals ! i # drop (Suc i) vals"
    using lt by (simp add: Cons_nth_drop_Suc)
  show ?case
    using lt by (simp add: dr Cons.IH [OF len])
qed

lemma kept_names:
  "well_formed p \<Longrightarrow> set (map fst (kept ExceptList p)) = set (ParamNames p) - set ExceptList"
proof -
  assume "well_formed p"
  then have "map fst (zip (ParamNames p) (ParamValues p)) = ParamNames p"
    by (simp add: well_formed_def)
  then have "set (ParamNames p) = fst ` set (entries p)"
    by (metis entries_def set_map)
  then show ?thesis
    by (auto simp: kept_def)
qed

text \<open>
  C5.  For a manager over a well-formed set and any exclusion list, the extraction gives a
  new set holding, in their original order, exactly the entries of the managed set whose
  name is not in the list; the names of these entries, which are the names of the set
  outside the list, are added to the manager's seen set; the managed set is as it was.
\<close>

theorem extract_except:
  assumes "well_formed (params m)"
  shows "ExtractParametersExcept ExceptList m =
      (Inr \<lparr>ParamNames = map fst (kept ExceptList (params m)),
            ParamValues = map snd (kept ExceptList (params m))\<rparr>,
       m\<lparr>seen := seen m \<union> set (map fst (kept ExceptList (params m)))\<rparr>)
   \<and> set (map fst (kept ExceptList (params m))) = set (ParamNames (params m)) - set ExceptList
   \<and> params (snd (ExtractParametersExcept ExceptList m)) = params m"
proof -
  have "length (ParamValues (params m)) = 0 + length (ParamNames (params m))"
    using assms by (simp add: well_formed_def)
  then have res: "ExtractParametersExcept ExceptList m =
      (Inr \<lparr>ParamNames = map fst (kept ExceptList (params m)),
            ParamValues = map snd (kept ExceptList (params m))\<rparr>,
       m\<lparr>seen := seen m \<union> set (map fst (kept ExceptList (params m)))\<rparr>)"
    by (simp add: ExtractParametersExcept_def Extract_loop_zip kept_def entries_def
          AnyParams_pairs_def)
  have "params (snd (ExtractParametersExcept ExceptList m)) = params m"
    by (simp add: res)
  with res kept_names [OF assms, of ExceptList] show ?thesis
    by (intro conjI)
qed

theorem extract_except_witness:
  "well_formed (params \<lparr>params = AnyParams_pairs [''a'', ''b'', ''c''] [''1'', ''2'', ''3''], seen = {}\<rparr>)
   \<and> ExtractParametersExcept [''a'']
        \<lparr>params = AnyParams_pairs [''a'', ''b'', ''c''] [''1'', ''2'', ''3''], seen = {}\<rparr>
      = (Inr \<lparr>ParamNames = [''b'', ''c''], ParamValues = [''2'', ''3'']\<rparr>,
         \<lparr>params = AnyParams_pairs [''a'', ''b'', ''c''] [''1'', ''2'', ''3''], seen = {''b'', ''c''}\<rparr>)"
proof -
  have wf: "well_formed (params \<lparr>params = AnyParams_pairs [''a'', ''b'', ''c''] [''1'', ''2'', ''3''], seen = {}\<rparr>)"
    by (simp add: well_formed_def AnyParams_pairs_def)
  have k: "kept [''a''] (AnyParams_pairs [''a'', ''b'', ''c''] [''1'', ''2'', ''3''])
       = [(''b'', ''2''), (''c'', ''3'')]"
    by (simp add: kept_def entries_def AnyParams_pairs_def)
  show ?thesis
    using wf extract_except [OF wf, of "[''a'']"] by (simp add: k insert_commute)
qed

section \<open>Replacing a value\<close>

lemma ChangeParam_loop_eq:
  "ChangeParam_loop Name t i ns vals =
     (if Name \<in> set ns then
        (if i + first_index Name ns < length vals
         then Inr (vals[i + first_index Name ns := t]) else Inl IndexOutOfRange)
      else Inl (ParameterNotFoundError Name))"
  by (induction ns arbitrary: i) (auto simp: first_index_def)

lemma first_index_less: "Name \<in> set ns \<Longrightarrow> first_index Name ns < length ns"
  by (induction ns) (auto simp: first_index_def)

lemma first_index_hit: "Name \<in> set ns \<Longrightarrow> ns ! first_index Name ns = Name"
  by (induction ns) (auto simp: first_index_def)

lemma first_index_first: "j < first_index Name ns \<Longrightarrow> ns ! j \<noteq> Name"
  unfolding first_index_def
  by (metis (mono_tags, lifting) nth_mem set_takeWhileD takeWhile_nth)

text \<open>
  C6.  Replacing the value for a name that no entry of the set has fails with the not-found
  failure for that name and leaves the set as it was.  In a well-formed set that has the
  name, the replacement finds the first entry with the name and stores the text of the new
  value as the value of that entry: the names, the number of values and every other value
  stay as they were.
\<close>

theorem change_param:
  "(Name \<notin> set (ParamNames p) \<longrightarrow>
      ChangeParam to_text Name Value p = (Inl (ParameterNotFoundError Name), p))
   \<and> (well_formed p \<and> Name \<in> set (ParamNames p) \<longrightarrow>
      first_index Name (ParamNames p) < length (ParamNames p)
      \<and> ParamNames p ! first_index Name (ParamNames p) = Name
      \<and> (\<forall>j < first_index Name (ParamNames p). ParamNames p ! j \<noteq> Name)
      \<and> ChangeParam to_text Name Value p =
          (Inr (), p\<lparr>ParamValues := (ParamValues p)[first_index Name (ParamNames p) := to_text Value]\<rparr>)
      \<and> ParamNames (snd (ChangeParam to_text Name Value p)) = ParamNames p
      \<and> length (ParamValues (snd (ChangeParam to_text Name Value p))) = length (ParamValues p)
      \<and> ParamValues (snd (ChangeParam to_text Name Value p)) ! first_index Name (ParamNames p)
          = to_text Value
      \<and> (\<forall>j. j \<noteq> first_index Name (ParamNames p) \<longrightarrow>
            ParamValues (snd (ChangeParam to_text Name Value p)) ! j = ParamValues p ! j))"
proof (intro conjI impI)
  assume "Name \<notin> set (ParamNames p)"
  then show "ChangeParam to_text Name Value p = (Inl (ParameterNotFoundError Name), p)"
    by (simp add: ChangeParam_def ChangeParam_loop_eq)
next
  assume a: "well_formed p \<and> Name \<in> set (ParamNames p)"
  let ?k = "first_index Name (ParamNames p)"
  from a have mem: "Name \<in> set (ParamNames p)" and len: "length (ParamValues p) = length (ParamNames p)"
    by (simp_all add: well_formed_def)
  have k: "?k < length (ParamNames p)"
    using mem by (rule first_index_less)
  have res: "ChangeParam to_text Name Value p =
          (Inr (), p\<lparr>ParamValues := (ParamValues p)[?k := to_text Value]\<rparr>)"
    using mem k len by (simp add: ChangeParam_def ChangeParam_loop_eq)
  show "?k < length (ParamNames p)" by (rule k)
  show "ParamNames p ! ?k = Name" using mem by (rule first_index_hit)
  show "\<forall>j < ?k. ParamNames p ! j \<noteq> Name" by (simp add: first_index_first)
  show "ChangeParam to_text Name Value p =
          (Inr (), p\<lparr>ParamValues := (ParamValues p)[?k := to_text Value]\<rparr>)" by (rule res)
  show "ParamNames (snd (ChangeParam to_text Name Value p)) = ParamNames p"
    by (simp add: res)
  show "length (ParamValues (snd (ChangeParam to_text Name Value p))) = length (ParamValues p)"
    by (simp add: res)
  show "ParamValues (snd (ChangeParam to_text Name Value p)) ! ?k = to_text Value"
    using k len by (simp add: res)
  show "\<forall>j. j \<noteq> ?k \<longrightarrow> ParamValues (snd (ChangeParam to_text Name Value p)) ! j = ParamValues p ! j"
    by (simp add: res)
qed

theorem change_param_witness:
  "well_formed (AnyParams_pairs [''a'', ''b'', ''b''] [''1'', ''2'', ''3''])
   \<and> ''b'' \<in> set (ParamNames (AnyParams_pairs [''a'', ''b'', ''b''] [''1'', ''2'', ''3'']))
   \<and> ChangeParam id ''b'' ''9'' (AnyParams_pairs [''a'', ''b'', ''b''] [''1'', ''2'', ''3''])
      = (Inr (), \<lparr>ParamNames = [''a'', ''b'', ''b''], ParamValues = [''1'', ''9'', ''3'']\<rparr>)
   \<and> ''z'' \<notin> set (ParamNames (AnyParams_pairs [''a'', ''b'', ''b''] [''1'', ''2'', ''3'']))
   \<and> ChangeParam id ''z'' ''9'' (AnyParams_pairs [''a'', ''b'', ''b''] [''1'', ''2'', ''3''])
      = (Inl (ParameterNotFoundError ''z''), AnyParams_pairs [''a'', ''b'', ''b''] [''1'', ''2'', ''3''])"
proof -
  let ?p = "AnyParams_pairs [''a'', ''b'', ''b''] [''1'', ''2'', ''3'']"
  have wf: "well_formed ?p" by (simp add: well_formed_def AnyParams_pairs_def)
  have mem: "''b'' \<in> set (ParamNames ?p)" by (simp add: AnyParams_pairs_def)
  have nmem: "''z'' \<notin> set (ParamNames ?p)" by (simp add: AnyParams_pairs_def)
  have fi: "first_index ''b'' (ParamNames ?p) = 1" by (simp add: first_index_def AnyParams_pairs_def)
  from change_param [of "''b''" ?p id "''9''"] wf mem
  have "ChangeParam id ''b'' ''9'' ?p =
          (Inr (), ?p\<lparr>ParamValues := (ParamValues ?p)[first_index ''b'' (ParamNames ?p) := id ''9'']\<rparr>)"
    by blast
  then have r1: "ChangeParam id ''b'' ''9'' ?p
      = (Inr (), \<lparr>ParamNames = [''a'', ''b'', ''b''], ParamValues = [''1'', ''9'', ''3'']\<rparr>)"
    by (simp add: fi) (simp add: AnyParams_pairs_def)
  from change_param [of "''z''" ?p id "''9''"] nmem
  have r2: "ChangeParam id ''z'' ''9'' ?p = (Inl (ParameterNotFoundError ''z''), ?p)"
    by blast
  from wf mem r1 nmem r2 show ?thesis by (intro conjI)
qed

section \<open>Construction from tokens\<close>

lemma AnyParams_loop_Cons:
  "AnyParams_loop sp (tok # rest) sn ns vs =
     (if malformed sp tok then Inl (MalformedParameterError tok)
      else if name_of sp tok \<in> sn then Inl (DuplicateParameterError (name_of sp tok))
      else AnyParams_loop sp rest (insert (name_of sp tok) sn)
             (ns @ [name_of sp tok]) (vs @ [value_of sp tok]))"
  by (simp add: malformed_def name_of_def value_of_def Let_def split: prod.splits)

lemma AnyParams_loop_prefix:
  "\<forall>u \<in> set pre. \<not> malformed sp u \<Longrightarrow> distinct (map (name_of sp) pre) \<Longrightarrow>
   set (map (name_of sp) pre) \<inter> sn = {} \<Longrightarrow>
   AnyParams_loop sp (pre @ rest) sn ns vs =
     AnyParams_loop sp rest (sn \<union> set (map (name_of sp) pre))
       (ns @ map (name_of sp) pre) (vs @ map (value_of sp) pre)"
proof (induction pre arbitrary: sn ns vs)
  case Nil
  then show ?case by simp
next
  case (Cons u pre)
  from Cons.prems have ok: "\<not> malformed sp u" and fresh: "name_of sp u \<notin> sn"
    and rest: "\<forall>u \<in> set pre. \<not> malformed sp u" "distinct (map (name_of sp) pre)"
      "set (map (name_of sp) pre) \<inter> insert (name_of sp u) sn = {}"
    by auto
  have "AnyParams_loop sp ((u # pre) @ rest) sn ns vs =
      AnyParams_loop sp (pre @ rest) (insert (name_of sp u) sn)
        (ns @ [name_of sp u]) (vs @ [value_of sp u])"
    using ok fresh by (simp add: AnyParams_loop_Cons del: AnyParams_loop.simps)
  also have "\<dots> = AnyParams_loop sp rest (insert (name_of sp u) sn \<union> set (map (name_of sp) pre))
        ((ns @ [name_of sp u]) @ map (name_of sp) pre) ((vs @ [value_of sp u]) @ map (value_of sp) pre)"
    by (rule Cons.IH [OF rest])
  finally show ?case by simp
qed

lemma AnyParams_loop_success:
  "AnyParams_loop sp toks sn ns vs = Inr p \<Longrightarrow>
   (\<forall>t \<in> set toks. \<not> malformed sp t) \<and> distinct (map (name_of sp) toks)
   \<and> set (map (name_of sp) toks) \<inter> sn = {}"
proof (induction toks arbitrary: sn ns vs)
  case Nil
  then show ?case by simp
next
  case (Cons t toks)
  from Cons.prems have ok: "\<not> malformed sp t" and fresh: "name_of sp t \<notin> sn"
    and rest: "AnyParams_loop sp toks (insert (name_of sp t) sn)
             (ns @ [name_of sp t]) (vs @ [value_of sp t]) = Inr p"
    by (auto simp: AnyParams_loop_Cons simp del: AnyParams_loop.simps split: if_splits)
  from Cons.IH [OF rest] ok fresh show ?case by auto
qed

lemma SplitStr_eval:
  "SplitStr ''a=1'' (CHR ''='') = (True, [''a'', ''1''])"
  "SplitStr ''a=2'' (CHR ''='') = (True, [''a'', ''2''])"
  "SplitStr ''b=2'' (CHR ''='') = (True, [''b'', ''2''])"
  "SplitStr ''b'' (CHR ''='') = (True, [''b''])"
  "SplitStr ''a=1=2'' (CHR ''='') = (True, [''a'', ''1'', ''2''])"
  by (simp_all add: SplitStr_def)

text \<open>
  C4.  The constructor reads the tokens in order, as the specification words it for each
  token.  When every token before it splits into a name and a value and these names are
  distinct, a token that does not split so fails the construction with the
  malformed-parameter failure for that token, and a token that does split but whose name is
  the name of an earlier token fails it with the duplicate-parameter failure for that name,
  whatever the values are.  The construction fails exactly when some token does not split
  into a name and a value or some name occurs twice; otherwise the set holds the names and
  the values of the tokens in input order, the names being distinct.
\<close>

theorem tokens_constructor:
  "((\<forall>t \<in> set toks. \<not> malformed sp t) \<and> distinct (map (name_of sp) toks) \<longrightarrow>
      AnyParams_tokens sp toks =
        Inr \<lparr>ParamNames = map (name_of sp) toks, ParamValues = map (value_of sp) toks\<rparr>)
   \<and> ((\<exists>e. AnyParams_tokens sp toks = Inl e) \<longleftrightarrow>
        (\<exists>t \<in> set toks. malformed sp t) \<or> \<not> distinct (map (name_of sp) toks))
   \<and> (toks = pre @ t # post \<and> (\<forall>u \<in> set pre. \<not> malformed sp u)
        \<and> distinct (map (name_of sp) pre) \<and> malformed sp t \<longrightarrow>
        AnyParams_tokens sp toks = Inl (MalformedParameterError t))
   \<and> (toks = pre @ t # post \<and> (\<forall>u \<in> set pre. \<not> malformed sp u)
        \<and> distinct (map (name_of sp) pre) \<and> \<not> malformed sp t
        \<and> name_of sp t \<in> set (map (name_of sp) pre) \<longrightarrow>
        AnyParams_tokens sp toks = Inl (DuplicateParameterError (name_of sp t)))"
proof -
  have good: "AnyParams_tokens sp toks =
        Inr \<lparr>ParamNames = map (name_of sp) toks, ParamValues = map (value_of sp) toks\<rparr>"
    if "(\<forall>t \<in> set toks. \<not> malformed sp t) \<and> distinct (map (name_of sp) toks)"
    using that AnyParams_loop_prefix [of toks sp "{}" "[]" "[]" "[]"]
    by (simp add: AnyParams_tokens_def)
  have fails: "(\<exists>e. AnyParams_tokens sp toks = Inl e) \<longleftrightarrow>
        (\<exists>t \<in> set toks. malformed sp t) \<or> \<not> distinct (map (name_of sp) toks)"
  proof
    assume "\<exists>e. AnyParams_tokens sp toks = Inl e"
    then show "(\<exists>t \<in> set toks. malformed sp t) \<or> \<not> distinct (map (name_of sp) toks)"
      using good by auto
  next
    assume bad: "(\<exists>t \<in> set toks. malformed sp t) \<or> \<not> distinct (map (name_of sp) toks)"
    show "\<exists>e. AnyParams_tokens sp toks = Inl e"
    proof (cases "AnyParams_tokens sp toks")
      case (Inl e)
      then show ?thesis by blast
    next
      case (Inr p)
      then have "(\<forall>t \<in> set toks. \<not> malformed sp t) \<and> distinct (map (name_of sp) toks)"
        using AnyParams_loop_success [of sp toks "{}" "[]" "[]" p]
        by (simp add: AnyParams_tokens_def)
      with bad show ?thesis by blast
    qed
  qed
  have at: "AnyParams_tokens sp (pre @ t # post) =
      AnyParams_loop sp (t # post) (set (map (name_of sp) pre))
        (map (name_of sp) pre) (map (value_of sp) pre)"
    if "\<forall>u \<in> set pre. \<not> malformed sp u" "distinct (map (name_of sp) pre)"
    using AnyParams_loop_prefix [of pre sp "{}" "t # post" "[]" "[]"] that
    by (simp add: AnyParams_tokens_def del: AnyParams_loop.simps)
  have mal: "AnyParams_tokens sp toks = Inl (MalformedParameterError t)"
    if "toks = pre @ t # post \<and> (\<forall>u \<in> set pre. \<not> malformed sp u)
        \<and> distinct (map (name_of sp) pre) \<and> malformed sp t"
    using that at by (simp add: AnyParams_loop_Cons del: AnyParams_loop.simps)
  have dup: "AnyParams_tokens sp toks = Inl (DuplicateParameterError (name_of sp t))"
    if "toks = pre @ t # post \<and> (\<forall>u \<in> set pre. \<not> malformed sp u)
        \<and> distinct (map (name_of sp) pre) \<and> \<not> malformed sp t
        \<and> name_of sp t \<in> set (map (name_of sp) pre)"
    using that at by (simp add: AnyParams_loop_Cons del: AnyParams_loop.simps)
  from good fails mal dup show ?thesis by blast
qed

theorem tokens_constructor_witness:
  "AnyParams_tokens SplitStr [''a=1'', ''b=2''] =
      Inr \<lparr>ParamNames = [''a'', ''b''], ParamValues = [''1'', ''2'']\<rparr>
   \<and> AnyParams_tokens SplitStr [''a=1'', ''a=1=2'', ''b=2''] = Inl (MalformedParameterError ''a=1=2'')
   \<and> AnyParams_tokens SplitStr [''a=1'', ''a=2''] = Inl (DuplicateParameterError ''a'')"
proof -
  have m: "\<not> malformed SplitStr ''a=1''" "\<not> malformed SplitStr ''b=2''" "\<not> malformed SplitStr ''a=2''"
    "malformed SplitStr ''a=1=2''"
    by (simp_all add: malformed_def SplitStr_eval)
  have n: "name_of SplitStr ''a=1'' = ''a''" "name_of SplitStr ''b=2'' = ''b''"
    "name_of SplitStr ''a=2'' = ''a''"
    by (simp_all add: name_of_def SplitStr_eval)
  have v: "value_of SplitStr ''a=1'' = ''1''" "value_of SplitStr ''b=2'' = ''2''"
    by (simp_all add: value_of_def SplitStr_eval)
  have "AnyParams_tokens SplitStr [''a=1'', ''b=2''] =
      Inr \<lparr>ParamNames = [''a'', ''b''], ParamValues = [''1'', ''2'']\<rparr>"
    using tokens_constructor [of "[''a=1'', ''b=2'']" SplitStr] by (simp add: m n v)
  moreover have "AnyParams_tokens SplitStr [''a=1'', ''a=1=2'', ''b=2''] = Inl (MalformedParameterError ''a=1=2'')"
    using tokens_constructor [of "[''a=1'', ''a=1=2'', ''b=2'']" SplitStr "[''a=1'']" "''a=1=2''" "[''b=2'']"]
    by (simp add: m n v)
  moreover have "AnyParams_tokens SplitStr [''a=1'', ''a=2''] = Inl (DuplicateParameterError ''a'')"
    using tokens_constructor [of "[''a=1'', ''a=2'']" SplitStr "[''a=1'']" "''a=2''" "[]"]
    by (simp add: m n v)
  ultimately show ?thesis by (intro conjI)
qed

section \<open>Round trip of well-formed tokens\<close>

lemma split_on_absent: "c \<notin> set s \<Longrightarrow> split_on c s = [s]"
  by (induction s) auto

lemma split_on_once:
  "count_list s c = 1 \<Longrightarrow>
   split_on c s = [takeWhile (\<lambda>x. x \<noteq> c) s, tl (dropWhile (\<lambda>x. x \<noteq> c) s)]"
proof (induction s)
  case Nil
  then show ?case by simp
next
  case (Cons x xs)
  show ?case
  proof (cases "x = c")
    case True
    with Cons.prems have "count_list xs c = 0" by simp
    then have "c \<notin> set xs" by (simp add: count_list_0_iff)
    with True show ?thesis by (simp add: split_on_absent)
  next
    case False
    with Cons.prems have "count_list xs c = 1" by simp
    from Cons.IH [OF this] False show ?thesis by simp
  qed
qed

lemma once_join:
  "count_list s c = 1 \<Longrightarrow>
   takeWhile (\<lambda>x. x \<noteq> c) s @ [c] @ tl (dropWhile (\<lambda>x. x \<noteq> c) s) = s"
proof (induction s)
  case Nil
  then show ?case by simp
next
  case (Cons x xs)
  then show ?case by (cases "x = c") (auto split: if_splits)
qed

lemma SplitStr_once:
  assumes "count_list tok (CHR ''='') = 1"
  shows "\<not> malformed SplitStr tok"
    and "name_of SplitStr tok = takeWhile (\<lambda>x. x \<noteq> CHR ''='') tok"
    and "name_of SplitStr tok @ ''='' @ value_of SplitStr tok = tok"
  using split_on_once [OF assms] once_join [OF assms]
  by (simp_all add: malformed_def name_of_def value_of_def SplitStr_def)

text \<open>
  C8.  With the split of the specification: for every list of tokens that each hold exactly
  one separator and whose names (the text before the separator) are distinct, the
  construction succeeds, and joining the name and the value of every entry with the
  separator, in order, gives the original tokens back.
\<close>

theorem tokens_round_trip:
  assumes "\<forall>tok \<in> set toks. count_list tok (CHR ''='') = 1"
    and "distinct (map (takeWhile (\<lambda>x. x \<noteq> CHR ''='')) toks)"
  shows "\<exists>p. AnyParams_tokens SplitStr toks = Inr p
           \<and> map (\<lambda>(Name, sVal). Name @ ''='' @ sVal) (entries p) = toks"
proof -
  have names: "map (name_of SplitStr) toks = map (takeWhile (\<lambda>x. x \<noteq> CHR ''='')) toks"
    using assms(1) by (simp add: SplitStr_once)
  have ok: "\<forall>t \<in> set toks. \<not> malformed SplitStr t"
    using assms(1) by (simp add: SplitStr_once)
  have built: "AnyParams_tokens SplitStr toks =
      Inr \<lparr>ParamNames = map (name_of SplitStr) toks, ParamValues = map (value_of SplitStr) toks\<rparr>"
    using AnyParams_loop_prefix [of toks SplitStr "{}" "[]" "[]" "[]"] ok assms(2) names
    by (simp add: AnyParams_tokens_def)
  have "map (\<lambda>(Name, sVal). Name @ ''='' @ sVal)
          (zip (map (name_of SplitStr) toks) (map (value_of SplitStr) toks)) =
        map (\<lambda>tok. name_of SplitStr tok @ ''='' @ value_of SplitStr tok) toks"
    by (induction toks) simp_all
  also have "\<dots> = toks"
  proof (rule map_idI)
    fix tok assume "tok \<in> set toks"
    with assms(1) have "count_list tok (CHR ''='') = 1" by blast
    then show "name_of SplitStr tok @ ''='' @ value_of SplitStr tok = tok"
      by (rule SplitStr_once(3))
  qed
  finally show ?thesis
    using built by (simp add: entries_def)
qed

theorem tokens_round_trip_witness:
  "count_list ''M=16'' (CHR ''='') = 1 \<and> count_list ''efC=200'' (CHR ''='') = 1
   \<and> distinct (map (takeWhile (\<lambda>x. x \<noteq> CHR ''='')) [''M=16'', ''efC=200''])
   \<and> AnyParams_tokens SplitStr [''M=16'', ''efC=200''] =
        Inr \<lparr>ParamNames = [''M'', ''efC''], ParamValues = [''16'', ''200'']\<rparr>
   \<and> map (\<lambda>(Name, sVal). Name @ ''='' @ sVal)
        (entries \<lparr>ParamNames = [''M'', ''efC''], ParamValues = [''16'', ''200'']\<rparr>)
      = [''M=16'', ''efC=200'']"
proof -
  have h1: "\<forall>tok \<in> set [''M=16'', ''efC=200'']. count_list tok (CHR ''='') = 1"
    by simp
  have h2: "distinct (map (takeWhile (\<lambda>x. x \<noteq> CHR ''='')) [''M=16'', ''efC=200''])"
    by simp
  have ev: "AnyParams_tokens SplitStr [''M=16'', ''efC=200''] =
        Inr \<lparr>ParamNames = [''M'', ''efC''], ParamValues = [''16'', ''200'']\<rparr>"
    by (simp add: AnyParams_tokens_def SplitStr_def)
  from tokens_round_trip [OF h1 h2] ev
  have "map (\<lambda>(Name, sVal). Name @ ''='' @ sVal)
        (entries \<lparr>ParamNames = [''M'', ''efC''], ParamValues = [''16'', ''200'']\<rparr>)
      = [''M=16'', ''efC=200'']"
    by simp
  moreover have "count_list ''M=16'' (CHR ''='') = 1" "count_list ''efC=200'' (CHR ''='') = 1"
    by simp_all
  ultimately show ?thesis using h2 ev by (intro conjI)
qed

end
